theory Spec2Isabelle
  imports Main
begin

section \<open>Time and the host's local time zone\<close>

text \<open>
  A JavaScript \<^verbatim>\<open>Date\<close> is a time value: the number of milliseconds since the epoch, an
  integer. \<^verbatim>\<open>new Date()\<close> reads the clock; the model passes the instant read as the
  argument \<open>now\<close> of every operation that reads it (the reads made inside one synchronous
  call of the manager are taken to return the same instant).
\<close>

type_synonym instant = int

definition msPerHour :: int where
  "msPerHour = 3600000"

definition msPerDay :: int where
  "msPerDay = 86400000"

text \<open>
  \<^verbatim>\<open>setDate\<close> and \<^verbatim>\<open>getDate\<close> work on local time, so \<^verbatim>\<open>calculateResetTime\<close> depends
  on the time zone of the host. The zone is a parameter of the model: \<open>utcOffset z t\<close> is
  the offset (in milliseconds) of local time from UTC in force at the UTC instant \<open>t\<close>, and
  \<open>localOffset z l\<close> is the offset in force at the local wall-clock value \<open>l\<close> (ECMAScript's
  LocalTime and UTC conversions).
\<close>

record zone =
  utcOffset :: "instant \<Rightarrow> int"
  localOffset :: "int \<Rightarrow> int"

definition fixedZone :: "int \<Rightarrow> zone" where
  "fixedZone c = \<lparr>utcOffset = (\<lambda>_. c), localOffset = (\<lambda>_. c)\<rparr>"

text \<open>\<^verbatim>\<open>d.setUTCHours(8, 0, 0, 0)\<close>: the same UTC day, at 08:00:00.000 UTC.\<close>

definition setUTCHours8 :: "instant \<Rightarrow> instant" where
  "setUTCHours8 t = (t div msPerDay) * msPerDay + 8 * msPerHour"

text \<open>
  \<^verbatim>\<open>d.setDate(d.getDate() + 1)\<close>: the local wall-clock value one calendar day later
  (same local time of day), converted back to a UTC instant.
\<close>

definition setDateNext :: "zone \<Rightarrow> instant \<Rightarrow> instant" where
  "setDateNext z t = (let l = t + utcOffset z t + msPerDay in l - localOffset z l)"

definition calculateResetTime :: "zone \<Rightarrow> instant \<Rightarrow> instant" where
  "calculateResetTime z now =
     (let resetTime = setUTCHours8 now
      in if now \<ge> resetTime then setDateNext z resetTime else resetTime)"

definition utcTimeOfDay :: "instant \<Rightarrow> int" where
  "utcTimeOfDay t = t mod msPerDay"

section \<open>The API key manager (apiKeyManager.js)\<close>

text \<open>
  One entry of \<^verbatim>\<open>keyStatus\<close>. The map \<^verbatim>\<open>keyStatus\<close> has the keys \<open>0 .. apiKeys.length - 1\<close>
  and entry \<open>i\<close> holds \<^verbatim>\<open>apiKeys[i]\<close> in its field \<^verbatim>\<open>key\<close>, so the manager is modelled by
  the list of entries and the current index; \<^verbatim>\<open>apiKeys.length\<close> is the length of the list.
\<close>

record key_status =
  key :: string
  isActive :: bool
  failCount :: nat
  lastError :: "string option"
  lastUsed :: "instant option"
  quotaExceeded :: bool
  resetTime :: "instant option"

record manager =
  keyStatus :: "key_status list"
  currentKeyIndex :: nat

text \<open>
  What the manager throws: the constructor's error when no key is configured, the error of
  \<^verbatim>\<open>rotateToNextKey\<close> when every key is exhausted, the error of \<^verbatim>\<open>resetKey\<close> on a bad
  index, and the \<^verbatim>\<open>TypeError\<close> JavaScript raises when a field of a missing entry is read.
\<close>

datatype mgr_error = NoApiKeys | AllKeysExhausted | InvalidKeyIndex | TypeError

definition initialStatus :: "string \<Rightarrow> key_status" where
  "initialStatus k =
     \<lparr>key = k, isActive = True, failCount = 0, lastError = None, lastUsed = None,
      quotaExceeded = False, resetTime = None\<rparr>"

definition poolOf :: "string list \<Rightarrow> manager" where
  "poolOf keys = \<lparr>keyStatus = map initialStatus keys, currentKeyIndex = 0\<rparr>"

definition newManager :: "string list \<Rightarrow> mgr_error + manager" where
  "newManager keys = (if keys = [] then Inl NoApiKeys else Inr (poolOf keys))"

definition getCurrentKey :: "manager \<Rightarrow> instant \<Rightarrow> manager \<times> (mgr_error + string)" where
  "getCurrentKey m now =
     (let i = currentKeyIndex m; ks = keyStatus m
      in if i < length ks
         then (m\<lparr>keyStatus := ks[i := (ks ! i)\<lparr>lastUsed := Some now\<rparr>]\<rparr>, Inr (key (ks ! i)))
         else (m, Inl TypeError))"

definition shouldResetKey :: "key_status \<Rightarrow> instant \<Rightarrow> bool" where
  "shouldResetKey st now =
     (case resetTime st of None \<Rightarrow> False | Some r \<Rightarrow> now \<ge> r)"

text \<open>
  The \<^verbatim>\<open>do ... while\<close> loop of \<^verbatim>\<open>rotateToNextKey\<close>: one call is one iteration. The index
  is advanced before the entry is examined, and stays advanced when the loop gives up.
\<close>

function rotateLoop :: "manager \<Rightarrow> nat \<Rightarrow> nat \<Rightarrow> instant \<Rightarrow> manager \<times> (mgr_error + string)" where
  "rotateLoop m startIndex attempts now =
     (if length (keyStatus m) = 0 then (m, Inl TypeError)
      else
        let idx = (currentKeyIndex m + 1) mod length (keyStatus m);
            m1 = m\<lparr>currentKeyIndex := idx\<rparr>;
            st = keyStatus m ! idx
        in if isActive st \<and> \<not> quotaExceeded st then (m1, Inr (key st))
           else if quotaExceeded st \<and> shouldResetKey st now
           then (m1\<lparr>keyStatus := (keyStatus m)
                      [idx := st\<lparr>quotaExceeded := False, isActive := True, failCount := 0\<rparr>]\<rparr>,
                 Inr (key st))
           else if idx \<noteq> startIndex \<and> attempts + 1 < length (keyStatus m)
           then rotateLoop m1 startIndex (attempts + 1) now
           else (m1, Inl AllKeysExhausted))"
  by pat_completeness auto
termination
  by (relation "measure (\<lambda>(m, s, a, t). length (keyStatus m) - a)") auto

definition rotateToNextKey :: "manager \<Rightarrow> instant \<Rightarrow> manager \<times> (mgr_error + string)" where
  "rotateToNextKey m now = rotateLoop m (currentKeyIndex m) 0 now"

definition markCurrentKeyAsExhausted ::
  "zone \<Rightarrow> manager \<Rightarrow> string \<Rightarrow> instant \<Rightarrow> manager \<times> (mgr_error + string)" where
  "markCurrentKeyAsExhausted z m err now =
     (let i = currentKeyIndex m; ks = keyStatus m
      in if i < length ks
         then rotateToNextKey
                (m\<lparr>keyStatus := ks[i := (ks ! i)\<lparr>quotaExceeded := True, isActive := False,
                        lastError := Some err, resetTime := Some (calculateResetTime z now)\<rparr>]\<rparr>)
                now
         else (m, Inl TypeError))"

definition markCurrentKeyError ::
  "manager \<Rightarrow> string \<Rightarrow> instant \<Rightarrow> manager \<times> (mgr_error + string)" where
  "markCurrentKeyError m err now =
     (let i = currentKeyIndex m; ks = keyStatus m
      in if i < length ks
         then
           let st = (ks ! i)\<lparr>failCount := failCount (ks ! i) + 1, lastError := Some err\<rparr>
           in if failCount st \<ge> 3
              then rotateToNextKey (m\<lparr>keyStatus := ks[i := st\<lparr>isActive := False\<rparr>]\<rparr>) now
              else (m\<lparr>keyStatus := ks[i := st]\<rparr>, Inr (key st))
         else (m, Inl TypeError))"

definition resetCurrentKeyErrors :: "manager \<Rightarrow> manager \<times> (mgr_error + unit)" where
  "resetCurrentKeyErrors m =
     (let i = currentKeyIndex m; ks = keyStatus m
      in if i < length ks
         then (m\<lparr>keyStatus := ks[i := (ks ! i)\<lparr>failCount := 0, lastError := None\<rparr>]\<rparr>, Inr ())
         else (m, Inl TypeError))"

definition resetKey :: "manager \<Rightarrow> int \<Rightarrow> manager \<times> (mgr_error + unit)" where
  "resetKey m keyIndex =
     (let ks = keyStatus m
      in if keyIndex < 0 \<or> keyIndex \<ge> int (length ks) then (m, Inl InvalidKeyIndex)
         else (m\<lparr>keyStatus := ks[nat keyIndex := (ks ! nat keyIndex)
                  \<lparr>isActive := True, quotaExceeded := False, failCount := 0,
                   lastError := None, resetTime := None\<rparr>]\<rparr>, Inr ()))"

definition resetAllKeys :: "manager \<Rightarrow> manager" where
  "resetAllKeys m =
     m\<lparr>keyStatus := map (\<lambda>st. st\<lparr>isActive := True, quotaExceeded := False, failCount := 0,
                                  lastError := None, resetTime := None\<rparr>) (keyStatus m)\<rparr>"

subsection \<open>Classifying an upstream error\<close>

text \<open>
  The error thrown by the HTTP client, as far as the source reads it:
  \<^verbatim>\<open>error.response?.status\<close> (absent when there is no response),
  \<^verbatim>\<open>error.response?.data?.error?.code\<close>, \<^verbatim>\<open>error.response?.data?.error?.message\<close> and
  \<^verbatim>\<open>error.message\<close>.
\<close>

record api_error =
  responseStatus :: "int option"
  payloadCode :: "int option"
  payloadMessage :: "string option"
  message :: string

text \<open>
  \<^verbatim>\<open>toLowerCase\<close> on the letters A to Z; every other character is left as it is (the model
  does not cover the case mappings of characters outside ASCII).
\<close>

definition lowerChar :: "char \<Rightarrow> char" where
  "lowerChar c =
     (case map_of (zip ''ABCDEFGHIJKLMNOPQRSTUVWXYZ'' ''abcdefghijklmnopqrstuvwxyz'') c of
        None \<Rightarrow> c
      | Some d \<Rightarrow> d)"

definition toLowerCase :: "string \<Rightarrow> string" where
  "toLowerCase s = map lowerChar s"

text \<open>\<^verbatim>\<open>s.includes(t)\<close>: \<open>t\<close> occurs in \<open>s\<close> as a contiguous substring.\<close>

fun includesStr :: "string \<Rightarrow> string \<Rightarrow> bool" where
  "includesStr [] t = (t = [])"
| "includesStr (c # cs) t = (take (length t) (c # cs) = t \<or> includesStr cs t)"

text \<open>
  \<^verbatim>\<open>error.response?.data?.error?.message || error.message || ''\<close>: the first of the two
  messages that is not empty.
\<close>

definition errorMessage :: "api_error \<Rightarrow> string" where
  "errorMessage e =
     (case payloadMessage e of
        None \<Rightarrow> message e
      | Some s \<Rightarrow> if s \<noteq> [] then s else message e)"

definition isQuotaError :: "api_error \<Rightarrow> bool" where
  "isQuotaError e =
     (payloadCode e = Some 403 \<or>
      includesStr (toLowerCase (errorMessage e)) ''quota'' \<or>
      includesStr (toLowerCase (errorMessage e)) ''exceeded'' \<or>
      includesStr (toLowerCase (errorMessage e)) ''limit'')"

definition isInvalidKeyError :: "api_error \<Rightarrow> bool" where
  "isInvalidKeyError e =
     (includesStr (toLowerCase (errorMessage e)) ''api key'' \<or>
      includesStr (toLowerCase (errorMessage e)) ''invalid'' \<or>
      includesStr (toLowerCase (errorMessage e)) ''unregistered'')"

definition handleApiError ::
  "zone \<Rightarrow> manager \<Rightarrow> api_error \<Rightarrow> instant \<Rightarrow> manager \<times> (mgr_error + string)" where
  "handleApiError z m e now =
     (if isQuotaError e then markCurrentKeyAsExhausted z m (message e) now
      else if isInvalidKeyError e then markCurrentKeyError m (message e) now
      else getCurrentKey m now)"

text \<open>
  The retry condition the controller gives to the HTTP client (\<^verbatim>\<open>axiosRetry\<close>). The
  library predicate \<^verbatim>\<open>isNetworkOrIdempotentRequestError\<close> is a parameter.
\<close>

definition retryCondition :: "(api_error \<Rightarrow> bool) \<Rightarrow> api_error \<Rightarrow> bool" where
  "retryCondition isNetworkOrIdempotentRequestError e =
     (isNetworkOrIdempotentRequestError e \<or>
      responseStatus e = Some 503 \<or> responseStatus e = Some 429)"

text \<open>
  The four classes of an upstream error, as the source tells them apart. The request
  function takes a response with status 403 for a quota error (its test on the status,
  \<^verbatim>\<open>statusCode === 429 || statusCode === 403\<close>, commented as the quota and rate limit
  case); the manager's \<^verbatim>\<open>handleApiError\<close> asks \<^verbatim>\<open>isQuotaError\<close> first and
  \<^verbatim>\<open>isInvalidKeyError\<close> second; the HTTP client retries what \<^verbatim>\<open>retryCondition\<close> accepts
  (status 429 and 503 among them). What is left is not retried and rotates nothing.
\<close>

datatype failure_class = Quota | InvalidCredential | Transient | Fatal

definition classify :: "(api_error \<Rightarrow> bool) \<Rightarrow> api_error \<Rightarrow> failure_class" where
  "classify isNetworkOrIdempotentRequestError e =
     (if responseStatus e = Some 403 \<or> isQuotaError e then Quota
      else if isInvalidKeyError e then InvalidCredential
      else if retryCondition isNetworkOrIdempotentRequestError e then Transient
      else Fatal)"

text \<open>
  A token occurs in a message case-insensitively: some contiguous part of the message is
  the token once lowered.
\<close>

definition containsIgnoringCase :: "string \<Rightarrow> string \<Rightarrow> bool" where
  "containsIgnoringCase s tok = (\<exists>pre mid suf. s = pre @ mid @ suf \<and> toLowerCase mid = tok)"

subsection \<open>The three states of a credential\<close>

text \<open>
  The source keeps two flags. \<^verbatim>\<open>rotateToNextKey\<close> selects an entry that is active and not
  over quota, and looks at the reset time of an entry that is over quota; an entry that is
  neither is never selected.
\<close>

datatype cred_status = Active | QuotaExceeded | Disabled

definition statusOf :: "key_status \<Rightarrow> cred_status" where
  "statusOf st =
     (if quotaExceeded st then QuotaExceeded
      else if isActive st then Active
      else Disabled)"

text \<open>What one iteration of the rotation loop accepts, and what it does to an accepted entry.\<close>

definition nextIndex :: "manager \<Rightarrow> nat" where
  "nextIndex m = (currentKeyIndex m + 1) mod length (keyStatus m)"

definition selectable :: "key_status \<Rightarrow> instant \<Rightarrow> bool" where
  "selectable st now =
     ((isActive st \<and> \<not> quotaExceeded st) \<or> (quotaExceeded st \<and> shouldResetKey st now))"

definition reactivate :: "key_status \<Rightarrow> key_status" where
  "reactivate st =
     (if isActive st \<and> \<not> quotaExceeded st then st
      else st\<lparr>quotaExceeded := False, isActive := True, failCount := 0\<rparr>)"

text \<open>The position examined by the \<open>j\<close>-th iteration of a rotation started at \<open>m\<close>.\<close>

definition scanIndex :: "manager \<Rightarrow> nat \<Rightarrow> nat" where
  "scanIndex m j = (currentKeyIndex m + j) mod length (keyStatus m)"

section \<open>The controller: request with key rotation, and the response cache\<close>

text \<open>What a call of the controller can throw at its caller.\<close>

datatype thrown = Upstream api_error | Manager mgr_error | ThrownNull

text \<open>
  The controller's \<^verbatim>\<open>handleApiError\<close> hands the error to the manager and then throws it
  again; when the manager itself throws, that error is the one that leaves the function.
\<close>

definition ctrlHandleApiError ::
  "zone \<Rightarrow> manager \<Rightarrow> api_error \<Rightarrow> instant \<Rightarrow> manager \<times> thrown" where
  "ctrlHandleApiError z m e now =
     (case handleApiError z m e now of
        (m', Inl err) \<Rightarrow> (m', Manager err)
      | (m', Inr _) \<Rightarrow> (m', Upstream e))"

text \<open>
  The outcome of \<^verbatim>\<open>makeApiRequestWithKeyRotation\<close>: the manager afterwards, the key sent
  with each remote call (one entry per call, in order), and the response or what is thrown.
\<close>

record 'r outcome =
  managerAfter :: manager
  keysSent :: "string list"
  result :: "thrown + 'r"

text \<open>
  The \<^verbatim>\<open>for\<close> loop of \<^verbatim>\<open>makeApiRequestWithKeyRotation\<close>. The remote call is the function
  \<open>remote\<close> of the attempt number and the key sent; \<open>clock attempt\<close> is the instant read
  during that attempt. The \<^verbatim>\<open>catch (e) { }\<close> around \<^verbatim>\<open>handleApiError\<close> keeps the manager's
  new state and drops what was thrown. \<open>attempt + 1 < maxRetries\<close> is
  \<^verbatim>\<open>attempt < maxRetries - 1\<close>.
\<close>

function requestLoop ::
  "zone \<Rightarrow> (nat \<Rightarrow> string \<Rightarrow> api_error + 'r) \<Rightarrow> (nat \<Rightarrow> instant) \<Rightarrow> nat \<Rightarrow>
   nat \<Rightarrow> manager \<Rightarrow> string list \<Rightarrow> 'r outcome" where
  "requestLoop z remote clock maxRetries attempt m sent =
     (if attempt < maxRetries then
        (case getCurrentKey m (clock attempt) of
           (m1, Inl err) \<Rightarrow> \<lparr>managerAfter = m1, keysSent = sent, result = Inl (Manager err)\<rparr>
         | (m1, Inr apiKey) \<Rightarrow>
             (case remote attempt apiKey of
                Inr response \<Rightarrow>
                  (case resetCurrentKeyErrors m1 of
                     (m2, Inl err) \<Rightarrow>
                       \<lparr>managerAfter = m2, keysSent = sent @ [apiKey], result = Inl (Manager err)\<rparr>
                   | (m2, Inr _) \<Rightarrow>
                       \<lparr>managerAfter = m2, keysSent = sent @ [apiKey], result = Inr response\<rparr>)
              | Inl e \<Rightarrow>
                  if responseStatus e = Some 429 \<or> responseStatus e = Some 403 then
                    (let m2 = fst (ctrlHandleApiError z m1 e (clock attempt))
                     in if attempt + 1 < maxRetries
                        then requestLoop z remote clock maxRetries (attempt + 1) m2 (sent @ [apiKey])
                        else \<lparr>managerAfter = m2, keysSent = sent @ [apiKey],
                              result = Inl (Upstream e)\<rparr>)
                  else \<lparr>managerAfter = m1, keysSent = sent @ [apiKey], result = Inl (Upstream e)\<rparr>))
      else \<lparr>managerAfter = m, keysSent = sent, result = Inl ThrownNull\<rparr>)"
  by pat_completeness auto
termination
  by (relation "measure (\<lambda>(z, remote, clock, maxRetries, attempt, m, sent). maxRetries - attempt)")
     auto

definition makeApiRequestWithKeyRotation ::
  "zone \<Rightarrow> (nat \<Rightarrow> string \<Rightarrow> api_error + 'r) \<Rightarrow> (nat \<Rightarrow> instant) \<Rightarrow> nat \<Rightarrow> manager \<Rightarrow>
   'r outcome" where
  "makeApiRequestWithKeyRotation z remote clock maxRetries m =
     requestLoop z remote clock maxRetries 0 m []"

subsection \<open>The response cache\<close>












section \<open>Runs and reachable states\<close>

text \<open>
  A run of consecutive \<^verbatim>\<open>markCurrentKeyAsExhausted\<close> calls, each with its error message
  and the instant it is made at. For each call the run records the index of the credential
  that was current when the call was made, and what the call returned or threw. The
  manager keeps the state a call leaves behind, also when the call throws.
\<close>

fun reportAll ::
  "zone \<Rightarrow> manager \<Rightarrow> (string \<times> instant) list \<Rightarrow> (nat \<times> (mgr_error + string)) list" where
  "reportAll z m [] = []"
| "reportAll z m ((err, now) # calls) =
     (currentKeyIndex m, snd (markCurrentKeyAsExhausted z m err now)) #
       reportAll z (fst (markCurrentKeyAsExhausted z m err now)) calls"

text \<open>The current index addresses an entry.\<close>

definition validIndex :: "manager \<Rightarrow> bool" where
  "validIndex m = (currentKeyIndex m < length (keyStatus m))"

text \<open>
  The states the singleton manager can be in: the one the constructor builds, and the
  state any public method leaves behind, whether it returns or throws.
\<close>

inductive reachable :: "zone \<Rightarrow> manager \<Rightarrow> bool" for z :: zone where
  r_new: "newManager keys = Inr m \<Longrightarrow> reachable z m"
| r_current: "reachable z m \<Longrightarrow> reachable z (fst (getCurrentKey m now))"
| r_exhausted: "reachable z m \<Longrightarrow> reachable z (fst (markCurrentKeyAsExhausted z m err now))"
| r_error: "reachable z m \<Longrightarrow> reachable z (fst (markCurrentKeyError m err now))"
| r_success: "reachable z m \<Longrightarrow> reachable z (fst (resetCurrentKeyErrors m))"
| r_rotate: "reachable z m \<Longrightarrow> reachable z (fst (rotateToNextKey m now))"
| r_handle: "reachable z m \<Longrightarrow> reachable z (fst (handleApiError z m e now))"
| r_reset: "reachable z m \<Longrightarrow> reachable z (fst (resetKey m i))"
| r_reset_all: "reachable z m \<Longrightarrow> reachable z (resetAllKeys m)"

section \<open>Hosts, errors and fetch functions used in the examples\<close>

definition utc :: zone where
  "utc = fixedZone 0"

text \<open>
  A host on Pacific time in March 2026: UTC-8 until 2026-03-08T10:00:00Z (02:00 local
  time), UTC-7 from then on.
\<close>

definition pacific2026 :: zone where
  "pacific2026 =
     \<lparr>utcOffset = (\<lambda>t. if t < 1772964000000 then - 8 * msPerHour else - 7 * msPerHour),
      localOffset = (\<lambda>l. if l < 1772935200000 then - 8 * msPerHour else - 7 * msPerHour)\<rparr>"

text \<open>
  A fresh manager on a UTC host whose first key was reported exhausted at the epoch: the
  reset time of that key is 08:00 UTC of the same day, 28800000.
\<close>

definition exhaustedOf :: "string list \<Rightarrow> manager" where
  "exhaustedOf keys = fst (markCurrentKeyAsExhausted utc (poolOf keys) ''quotaExceeded'' 0)"

text \<open>A 403 whose body carries the service's quota error.\<close>

definition quota403 :: api_error where
  "quota403 =
     \<lparr>responseStatus = Some 403, payloadCode = Some 403,
      payloadMessage = Some ''The request cannot be completed because you have exceeded your quota.'',
      message = ''Request failed with status code 403''\<rparr>"

text \<open>A 403 whose body is not the service's error object.\<close>

definition plain403 :: api_error where
  "plain403 =
     \<lparr>responseStatus = Some 403, payloadCode = None, payloadMessage = None,
      message = ''Request failed with status code 403''\<rparr>"

text \<open>A 404 on a well-formed lookup.\<close>

definition notFound404 :: api_error where
  "notFound404 =
     \<lparr>responseStatus = Some 404, payloadCode = Some 404, payloadMessage = Some ''Not Found'',
      message = ''Request failed with status code 404''\<rparr>"

text \<open>An error whose message matches both the quota and the invalid-key patterns.\<close>

definition limitInvalid400 :: api_error where
  "limitInvalid400 =
     \<lparr>responseStatus = Some 400, payloadCode = Some 400,
      payloadMessage = Some ''Invalid request: rate LIMIT reached'',
      message = ''Request failed with status code 400''\<rparr>"



section \<open>The rotation loop\<close>

text \<open>
  The recursion equation of the loop is applied one iteration at a time, through the three
  lemmas below: the entry examined is accepted, or the loop goes on, or it gives up.
\<close>

declare rotateLoop.simps [simp del]

lemma rotateLoop_select:
  "keyStatus m \<noteq> [] \<Longrightarrow> selectable (keyStatus m ! nextIndex m) now \<Longrightarrow>
   rotateLoop m s a now =
     (m\<lparr>currentKeyIndex := nextIndex m,
        keyStatus := (keyStatus m)[nextIndex m := reactivate (keyStatus m ! nextIndex m)]\<rparr>,
      Inr (key (keyStatus m ! nextIndex m)))"
  by (subst rotateLoop.simps)
     (auto simp: Let_def selectable_def reactivate_def nextIndex_def)

lemma rotateLoop_continue:
  "keyStatus m \<noteq> [] \<Longrightarrow> \<not> selectable (keyStatus m ! nextIndex m) now \<Longrightarrow>
   nextIndex m \<noteq> s \<Longrightarrow> a + 1 < length (keyStatus m) \<Longrightarrow>
   rotateLoop m s a now = rotateLoop (m\<lparr>currentKeyIndex := nextIndex m\<rparr>) s (a + 1) now"
  by (subst rotateLoop.simps) (auto simp: Let_def selectable_def nextIndex_def)

lemma rotateLoop_stop:
  "keyStatus m \<noteq> [] \<Longrightarrow> \<not> selectable (keyStatus m ! nextIndex m) now \<Longrightarrow>
   \<not> (nextIndex m \<noteq> s \<and> a + 1 < length (keyStatus m)) \<Longrightarrow>
   rotateLoop m s a now = (m\<lparr>currentKeyIndex := nextIndex m\<rparr>, Inl AllKeysExhausted)"
  by (subst rotateLoop.simps) (auto simp: Let_def selectable_def nextIndex_def)

lemma rotateLoop_empty:
  "keyStatus m = [] \<Longrightarrow> rotateLoop m s a now = (m, Inl TypeError)"
  by (subst rotateLoop.simps) simp

lemma nextIndex_less: "keyStatus m \<noteq> [] \<Longrightarrow> nextIndex m < length (keyStatus m)"
  by (simp add: nextIndex_def)

text \<open>
  Whatever the loop returns, it has either selected one acceptable entry (reactivating it
  when it was over quota) or changed nothing but the current index.
\<close>

lemma rotateLoop_cases:
  "keyStatus m \<noteq> [] \<Longrightarrow> rotateLoop m s a now = (m', r) \<Longrightarrow>
   (\<exists>i < length (keyStatus m).
       selectable (keyStatus m ! i) now \<and> r = Inr (key (keyStatus m ! i)) \<and>
       m' = m\<lparr>currentKeyIndex := i,
               keyStatus := (keyStatus m)[i := reactivate (keyStatus m ! i)]\<rparr>) \<or>
   (\<exists>i < length (keyStatus m). r = Inl AllKeysExhausted \<and> m' = m\<lparr>currentKeyIndex := i\<rparr>)"
proof (induction "length (keyStatus m) - a" arbitrary: m a rule: less_induct)
  case less
  let ?i = "nextIndex m"
  have il: "?i < length (keyStatus m)" by (rule nextIndex_less [OF less.prems(1)])
  show ?case
  proof (cases "selectable (keyStatus m ! ?i) now")
    case True
    from rotateLoop_select [OF less.prems(1) True, of s a] less.prems(2) il True
    show ?thesis by auto
  next
    case ns: False
    show ?thesis
    proof (cases "?i \<noteq> s \<and> a + 1 < length (keyStatus m)")
      case True
      let ?m1 = "m\<lparr>currentKeyIndex := ?i\<rparr>"
      have run: "rotateLoop ?m1 s (a + 1) now = (m', r)"
        using rotateLoop_continue [OF less.prems(1) ns] True less.prems(2) by simp
      have dec: "length (keyStatus ?m1) - (a + 1) < length (keyStatus m) - a"
        using True by auto
      have ne1: "keyStatus ?m1 \<noteq> []" using less.prems(1) by simp
      from less.hyps [OF dec ne1 run] show ?thesis by auto
    next
      case False
      from rotateLoop_stop [OF less.prems(1) ns False] less.prems(2) il
      show ?thesis by auto
    qed
  qed
qed

lemma rotateLoop_length:
  "rotateLoop m s a now = (m', r) \<Longrightarrow> length (keyStatus m') = length (keyStatus m)"
proof (cases "keyStatus m = []")
  case True
  assume "rotateLoop m s a now = (m', r)"
  with rotateLoop_empty [OF True, of s a now] show ?thesis by simp
next
  case False
  assume "rotateLoop m s a now = (m', r)"
  from rotateLoop_cases [OF False this] show ?thesis by auto
qed

lemma rotateLoop_index:
  "keyStatus m \<noteq> [] \<Longrightarrow> rotateLoop m s a now = (m', r) \<Longrightarrow>
   currentKeyIndex m' < length (keyStatus m')"
  by (drule (1) rotateLoop_cases) auto

lemma rotateLoop_fail_status:
  "keyStatus m \<noteq> [] \<Longrightarrow> rotateLoop m s a now = (m', Inl e) \<Longrightarrow> keyStatus m' = keyStatus m"
  by (drule (1) rotateLoop_cases) auto

lemma rotateLoop_selected:
  "keyStatus m \<noteq> [] \<Longrightarrow> rotateLoop m s a now = (m', Inr k) \<Longrightarrow>
   currentKeyIndex m' < length (keyStatus m) \<and>
   selectable (keyStatus m ! currentKeyIndex m') now \<and>
   k = key (keyStatus m ! currentKeyIndex m') \<and>
   keyStatus m' =
     (keyStatus m)[currentKeyIndex m' := reactivate (keyStatus m ! currentKeyIndex m')]"
  by (drule (1) rotateLoop_cases) auto

text \<open>
  When the loop gives up it has gone once round the pool: the index is back where the
  rotation started.
\<close>

lemma rotateLoop_fail_index:
  "rotateLoop m s a now = (m', Inl e) \<Longrightarrow> s < length (keyStatus m) \<Longrightarrow>
   a < length (keyStatus m) \<Longrightarrow> currentKeyIndex m = (s + a) mod length (keyStatus m) \<Longrightarrow>
   currentKeyIndex m' = s \<and> e = AllKeysExhausted"
proof (induction "length (keyStatus m) - a" arbitrary: m a rule: less_induct)
  case less
  let ?n = "length (keyStatus m)"
  have ne: "keyStatus m \<noteq> []" using less.prems(2) by auto
  have idx: "nextIndex m = (s + (a + 1)) mod ?n"
    using less.prems(4) by (simp add: nextIndex_def mod_Suc_eq)
  have ns: "\<not> selectable (keyStatus m ! nextIndex m) now"
    using less.prems(1) rotateLoop_select [OF ne, of now s a] by auto
  show ?case
  proof (cases "nextIndex m \<noteq> s \<and> a + 1 < ?n")
    case True
    let ?m1 = "m\<lparr>currentKeyIndex := nextIndex m\<rparr>"
    have "rotateLoop ?m1 s (a + 1) now = (m', Inl e)"
      using rotateLoop_continue [OF ne ns] True less.prems(1) by simp
    moreover have "length (keyStatus ?m1) - (a + 1) < ?n - a" using True by auto
    ultimately show ?thesis
      using less.hyps [of ?m1 "a + 1"] less.prems(2) True idx by simp
  next
    case False
    have "nextIndex m = s"
    proof (cases "a + 1 < ?n")
      case True with False show ?thesis by simp
    next
      case False
      with less.prems(3) have "a + 1 = ?n" by simp
      then have "s + (a + 1) = s + ?n" by (rule arg_cong)
      with idx have "nextIndex m = (s + ?n) mod ?n" by (simp only:)
      then show ?thesis using less.prems(2) by simp
    qed
    moreover have "rotateLoop m s a now = (m\<lparr>currentKeyIndex := nextIndex m\<rparr>, Inl AllKeysExhausted)"
      by (rule rotateLoop_stop [OF ne ns False])
    ultimately show ?thesis using less.prems(1) by auto
  qed
qed

text \<open>The loop selects the first acceptable entry in scan order.\<close>

lemma rotateLoop_first:
  "s < length (keyStatus m) \<Longrightarrow> currentKeyIndex m = (s + a) mod length (keyStatus m) \<Longrightarrow>
   1 \<le> j \<Longrightarrow> a + j \<le> length (keyStatus m) \<Longrightarrow>
   (\<forall>j'. 1 \<le> j' \<and> j' < j \<longrightarrow> \<not> selectable (keyStatus m ! ((s + a + j') mod length (keyStatus m))) now) \<Longrightarrow>
   selectable (keyStatus m ! ((s + a + j) mod length (keyStatus m))) now \<Longrightarrow>
   rotateLoop m s a now =
     (m\<lparr>currentKeyIndex := (s + a + j) mod length (keyStatus m),
        keyStatus := (keyStatus m)[(s + a + j) mod length (keyStatus m) :=
                        reactivate (keyStatus m ! ((s + a + j) mod length (keyStatus m)))]\<rparr>,
      Inr (key (keyStatus m ! ((s + a + j) mod length (keyStatus m)))))"
proof (induction j arbitrary: m a)
  case 0
  then show ?case by simp
next
  case (Suc j)
  let ?n = "length (keyStatus m)"
  have n: "keyStatus m \<noteq> []" using Suc.prems(1) by auto
  have idx: "nextIndex m = (s + a + 1) mod ?n"
    using Suc.prems(2) by (simp add: nextIndex_def mod_Suc_eq)
  show ?case
  proof (cases "j = 0")
    case True
    with Suc.prems idx rotateLoop_select [OF n, of now s a] show ?thesis
      by simp
  next
    case False
    then have j1: "1 \<le> j" by simp
    have "1 \<le> (1::nat) \<and> 1 < Suc j" using False by simp
    with Suc.prems(5) have "\<not> selectable (keyStatus m ! ((s + a + 1) mod ?n)) now"
      by blast
    then have ns: "\<not> selectable (keyStatus m ! nextIndex m) now" using idx by simp
    have a1: "a + 1 < ?n" using Suc.prems(4) False by simp
    have ne: "nextIndex m \<noteq> s"
    proof
      assume "nextIndex m = s"
      then have "(s + (a + 1)) mod ?n = s" using idx by (simp add: add.assoc)
      moreover have "s + (a + 1) < ?n \<or> (s + (a + 1) \<ge> ?n \<and> s + (a + 1) - ?n < ?n)"
        using Suc.prems(1) a1 by linarith
      ultimately show False
        using a1 by (auto simp: mod_if le_mod_geq split: if_splits)
    qed
    let ?m1 = "m\<lparr>currentKeyIndex := nextIndex m\<rparr>"
    have step: "rotateLoop m s a now = rotateLoop ?m1 s (a + 1) now"
      by (rule rotateLoop_continue [OF n ns ne a1])
    have "rotateLoop ?m1 s (a + 1) now =
     (?m1\<lparr>currentKeyIndex := (s + (a + 1) + j) mod length (keyStatus ?m1),
        keyStatus := (keyStatus ?m1)[(s + (a + 1) + j) mod length (keyStatus ?m1) :=
                        reactivate (keyStatus ?m1 ! ((s + (a + 1) + j) mod length (keyStatus ?m1)))]\<rparr>,
      Inr (key (keyStatus ?m1 ! ((s + (a + 1) + j) mod length (keyStatus ?m1)))))"
    proof (rule Suc.IH)
      show "s < length (keyStatus ?m1)" using Suc.prems(1) by simp
      show "currentKeyIndex ?m1 = (s + (a + 1)) mod length (keyStatus ?m1)"
        using idx by (simp add: add.assoc)
      show "1 \<le> j" by (rule j1)
      show "a + 1 + j \<le> length (keyStatus ?m1)" using Suc.prems(4) by simp
      show "\<forall>j'. 1 \<le> j' \<and> j' < j \<longrightarrow> \<not> selectable (keyStatus ?m1 ! ((s + (a + 1) + j') mod length (keyStatus ?m1))) now"
      proof (intro allI impI)
        fix j' assume "1 \<le> j' \<and> j' < j"
        then have "1 \<le> Suc j' \<and> Suc j' < Suc j" by simp
        with Suc.prems(5) have "\<not> selectable (keyStatus m ! ((s + a + Suc j') mod ?n)) now" by blast
        then show "\<not> selectable (keyStatus ?m1 ! ((s + (a + 1) + j') mod length (keyStatus ?m1))) now"
          by (simp add: add.assoc)
      qed
      show "selectable (keyStatus ?m1 ! ((s + (a + 1) + j) mod length (keyStatus ?m1))) now"
        using Suc.prems(6) by (simp add: add.assoc)
    qed
    with step show ?thesis by (simp add: add.assoc)
  qed
qed

section \<open>The current index stays valid\<close>

lemma rotateToNextKey_valid:
  "validIndex m \<Longrightarrow> validIndex (fst (rotateToNextKey m now))"
proof -
  assume v: "validIndex m"
  then have ne: "keyStatus m \<noteq> []" by (auto simp: validIndex_def)
  obtain m' r where run: "rotateLoop m (currentKeyIndex m) 0 now = (m', r)" by (cases "rotateLoop m (currentKeyIndex m) 0 now")
  from rotateLoop_index [OF ne run] run show ?thesis
    by (simp add: rotateToNextKey_def validIndex_def)
qed

lemma getCurrentKey_valid: "validIndex m \<Longrightarrow> validIndex (fst (getCurrentKey m now))"
  by (simp add: getCurrentKey_def validIndex_def Let_def)

lemma markCurrentKeyAsExhausted_valid:
  "validIndex m \<Longrightarrow> validIndex (fst (markCurrentKeyAsExhausted z m err now))"
proof -
  assume v: "validIndex m"
  have "validIndex (m\<lparr>keyStatus := (keyStatus m)[currentKeyIndex m := st]\<rparr>)" for st
    using v by (simp add: validIndex_def)
  then show ?thesis
    using v by (simp add: markCurrentKeyAsExhausted_def Let_def rotateToNextKey_valid)
qed

lemma markCurrentKeyError_valid:
  "validIndex m \<Longrightarrow> validIndex (fst (markCurrentKeyError m err now))"
proof -
  assume v: "validIndex m"
  have "validIndex (m\<lparr>keyStatus := (keyStatus m)[currentKeyIndex m := st]\<rparr>)" for st
    using v by (simp add: validIndex_def)
  then show ?thesis
    using v by (simp add: markCurrentKeyError_def Let_def rotateToNextKey_valid)
qed

lemma resetCurrentKeyErrors_valid: "validIndex m \<Longrightarrow> validIndex (fst (resetCurrentKeyErrors m))"
  by (simp add: resetCurrentKeyErrors_def validIndex_def Let_def)

lemma handleApiError_valid: "validIndex m \<Longrightarrow> validIndex (fst (handleApiError z m e now))"
  by (simp add: handleApiError_def markCurrentKeyAsExhausted_valid markCurrentKeyError_valid
      getCurrentKey_valid)

lemma resetKey_valid: "validIndex m \<Longrightarrow> validIndex (fst (resetKey m i))"
  by (simp add: resetKey_def validIndex_def Let_def)

lemma resetAllKeys_valid: "validIndex m \<Longrightarrow> validIndex (resetAllKeys m)"
  by (simp add: resetAllKeys_def validIndex_def)

lemma reachable_valid: "reachable z m \<Longrightarrow> validIndex m"
proof (induction rule: reachable.induct)
  case (r_new keys m)
  then show ?case
    by (auto simp: newManager_def poolOf_def validIndex_def split: if_splits)
qed (simp_all add: getCurrentKey_valid markCurrentKeyAsExhausted_valid markCurrentKeyError_valid
      resetCurrentKeyErrors_valid rotateToNextKey_valid handleApiError_valid resetKey_valid
      resetAllKeys_valid)

lemma statusOf_Active: "statusOf st = Active \<longleftrightarrow> isActive st \<and> \<not> quotaExceeded st"
  by (simp add: statusOf_def)

lemma reactivate_active: "isActive st \<Longrightarrow> \<not> quotaExceeded st \<Longrightarrow> reactivate st = st"
  by (simp add: reactivate_def)

lemma getCurrentKey_ok:
  "validIndex m \<Longrightarrow>
   getCurrentKey m now =
     (m\<lparr>keyStatus := (keyStatus m)[currentKeyIndex m :=
          (keyStatus m ! currentKeyIndex m)\<lparr>lastUsed := Some now\<rparr>]\<rparr>,
      Inr (key (keyStatus m ! currentKeyIndex m)))"
  by (simp add: getCurrentKey_def validIndex_def Let_def)

section \<open>The example states, evaluated\<close>

lemmas eval_defs =
  markCurrentKeyAsExhausted_def markCurrentKeyError_def poolOf_def initialStatus_def
  rotateToNextKey_def rotateLoop.simps shouldResetKey_def calculateResetTime_def
  setUTCHours8_def utc_def fixedZone_def msPerDay_def msPerHour_def Let_def
  getCurrentKey_def exhaustedOf_def

lemma exhaustedOf_1:
  "exhaustedOf [''K1''] =
     \<lparr>keyStatus = [\<lparr>key = ''K1'', isActive = False, failCount = 0,
                     lastError = Some ''quotaExceeded'', lastUsed = None,
                     quotaExceeded = True, resetTime = Some 28800000\<rparr>],
      currentKeyIndex = 0\<rparr>"
  by (simp add: eval_defs)

lemma exhaustedOf_2:
  "exhaustedOf [''K1'', ''K2''] =
     \<lparr>keyStatus = [\<lparr>key = ''K1'', isActive = False, failCount = 0,
                     lastError = Some ''quotaExceeded'', lastUsed = None,
                     quotaExceeded = True, resetTime = Some 28800000\<rparr>,
                   initialStatus ''K2''],
      currentKeyIndex = 1\<rparr>"
  by (simp add: eval_defs)

lemma exhaustedOf_3:
  "exhaustedOf [''K1'', ''K2'', ''K3''] =
     \<lparr>keyStatus = [\<lparr>key = ''K1'', isActive = False, failCount = 0,
                     lastError = Some ''quotaExceeded'', lastUsed = None,
                     quotaExceeded = True, resetTime = Some 28800000\<rparr>,
                   initialStatus ''K2'', initialStatus ''K3''],
      currentKeyIndex = 1\<rparr>"
  by (simp add: eval_defs)

lemma single_exhausted:
  "markCurrentKeyAsExhausted utc (poolOf [''K1'']) ''quotaExceeded'' 0 =
     (\<lparr>keyStatus = [\<lparr>key = ''K1'', isActive = False, failCount = 0,
                     lastError = Some ''quotaExceeded'', lastUsed = None,
                     quotaExceeded = True, resetTime = Some 28800000\<rparr>],
       currentKeyIndex = 0\<rparr>, Inl AllKeysExhausted)"
  by (simp add: markCurrentKeyAsExhausted_def poolOf_def initialStatus_def rotateToNextKey_def
      rotateLoop.simps shouldResetKey_def calculateResetTime_def setUTCHours8_def utc_def
      fixedZone_def msPerDay_def msPerHour_def Let_def)

section \<open>Claim C1: exhaustion raised while an error is handled\<close>

declare requestLoop.simps [simp del]

lemma getCurrentKey_error: "getCurrentKey m now = (m', Inl err) \<Longrightarrow> err = TypeError"
  by (auto simp: getCurrentKey_def Let_def split: if_splits)

lemma resetCurrentKeyErrors_error: "resetCurrentKeyErrors m = (m', Inl err) \<Longrightarrow> err = TypeError"
  by (auto simp: resetCurrentKeyErrors_def Let_def split: if_splits)

text \<open>
  The only manager errors that leave the request loop are the ones raised by
  \<^verbatim>\<open>getCurrentKey\<close> and \<^verbatim>\<open>resetCurrentKeyErrors\<close>; what \<^verbatim>\<open>handleApiError\<close> throws is
  dropped by the empty \<^verbatim>\<open>catch\<close>, so the exhaustion error never reaches the caller.
\<close>

lemma requestLoop_never_exhausted:
  "result (requestLoop z remote clock maxRetries attempt m sent) \<noteq> Inl (Manager AllKeysExhausted)"
proof (induction z remote clock maxRetries attempt m sent rule: requestLoop.induct)
  case (1 z remote clock maxRetries attempt m sent)
  show ?case
    apply (subst requestLoop.simps)
    using "1.IH"
    apply (auto simp: Let_def split: prod.splits sum.splits dest: getCurrentKey_error resetCurrentKeyErrors_error)
    done
qed

text \<open>
  Claim C1 says that when a pool transition raises the exhaustion error while a failure is
  handled, the request function propagates that error at once, whatever the number of
  attempts left, and does not go on with the same exhausted credential. The source does
  otherwise. With a single key and a remote service that always answers with the quota
  error, the manager raises \<open>AllKeysExhausted\<close> on the first attempt; the request function
  nevertheless sends the same key three times and throws the upstream error.
\<close>

theorem exhaustion_swallowed:
  "snd (handleApiError utc (fst (getCurrentKey (poolOf [''K1'']) 0)) quota403 0) =
      Inl AllKeysExhausted \<and>
   keysSent (makeApiRequestWithKeyRotation utc (\<lambda>attempt k. Inl quota403 :: api_error + unit)
      (\<lambda>attempt. 1000 * int attempt) 3 (poolOf [''K1''])) = [''K1'', ''K1'', ''K1''] \<and>
   result (makeApiRequestWithKeyRotation utc (\<lambda>attempt k. Inl quota403 :: api_error + unit)
      (\<lambda>attempt. 1000 * int attempt) 3 (poolOf [''K1''])) = Inl (Upstream quota403)"
proof -
  have q: "isQuotaError quota403" by (simp add: quota403_def isQuotaError_def)
  have s: "responseStatus quota403 = Some 403" by (simp add: quota403_def)
  show ?thesis
    by (simp add: makeApiRequestWithKeyRotation_def requestLoop.simps ctrlHandleApiError_def
      handleApiError_def q s getCurrentKey_def
      markCurrentKeyAsExhausted_def poolOf_def initialStatus_def rotateToNextKey_def
      rotateLoop.simps shouldResetKey_def calculateResetTime_def setUTCHours8_def utc_def
      fixedZone_def msPerDay_def msPerHour_def Let_def)
qed

section \<open>Claim C2: a credential over quota and its reset time\<close>

text \<open>
  Claim C2 as stated fails twice. In a pool of three keys whose first key is over quota and
  past its reset time, a rotation from the second key selects the third key, which is
  active, and leaves the first key over quota: the rotation takes the first acceptable entry
  in scan order. And when a rotation does reactivate a key, here the first of two keys, the
  reset time of that key is still set afterwards.
\<close>

theorem rotate_reactivation_counterexample:
  "statusOf (keyStatus (exhaustedOf [''K1'', ''K2'', ''K3'']) ! 0) = QuotaExceeded \<and>
   resetTime (keyStatus (exhaustedOf [''K1'', ''K2'', ''K3'']) ! 0) = Some 28800000 \<and>
   snd (rotateToNextKey (exhaustedOf [''K1'', ''K2'', ''K3'']) 28800000) = Inr ''K3'' \<and>
   statusOf (keyStatus (fst (rotateToNextKey (exhaustedOf [''K1'', ''K2'', ''K3'']) 28800000)) ! 0)
     = QuotaExceeded \<and>
   resetTime (keyStatus (exhaustedOf [''K1'', ''K2'']) ! 0) = Some 28800000 \<and>
   snd (rotateToNextKey (exhaustedOf [''K1'', ''K2'']) 86400000) = Inr ''K1'' \<and>
   resetTime (keyStatus (fst (rotateToNextKey (exhaustedOf [''K1'', ''K2'']) 86400000)) ! 0)
     = Some 28800000"
  by (simp add: exhaustedOf_2 exhaustedOf_3 rotateToNextKey_def rotateLoop.simps
      shouldResetKey_def initialStatus_def statusOf_def Let_def)

text \<open>
  Claim C2, amended. Let the credential at index \<open>i\<close> be over quota with reset time \<open>R\<close>.
  At any instant strictly before \<open>R\<close> no rotation selects it. At any instant at or after
  \<open>R\<close>, a rotation whose scan reaches \<open>i\<close> before any other acceptable entry makes the
  credential active again, sets its failure count to 0 and selects it, and touches no other
  credential. (Nothing is said about the reset time field of the credential.)
\<close>

theorem rotate_quota_exceeded:
  assumes "validIndex m" and "i < length (keyStatus m)"
    and "quotaExceeded (keyStatus m ! i)" and "resetTime (keyStatus m ! i) = Some R"
  shows "(now < R \<longrightarrow>
            (\<forall>m' k. rotateToNextKey m now = (m', Inr k) \<longrightarrow> currentKeyIndex m' \<noteq> i)) \<and>
         (R \<le> now \<longrightarrow>
            (\<forall>j. 1 \<le> j \<and> j \<le> length (keyStatus m) \<and> scanIndex m j = i \<and>
                 (\<forall>j'. 1 \<le> j' \<and> j' < j \<longrightarrow> \<not> selectable (keyStatus m ! scanIndex m j') now) \<longrightarrow>
               snd (rotateToNextKey m now) = Inr (key (keyStatus m ! i)) \<and>
               currentKeyIndex (fst (rotateToNextKey m now)) = i \<and>
               statusOf (keyStatus (fst (rotateToNextKey m now)) ! i) = Active \<and>
               failCount (keyStatus (fst (rotateToNextKey m now)) ! i) = 0 \<and>
               key (keyStatus (fst (rotateToNextKey m now)) ! i) = key (keyStatus m ! i) \<and>
               length (keyStatus (fst (rotateToNextKey m now))) = length (keyStatus m) \<and>
               (\<forall>i' < length (keyStatus m). i' \<noteq> i \<longrightarrow>
                  keyStatus (fst (rotateToNextKey m now)) ! i' = keyStatus m ! i')))"
proof (rule conjI; intro impI allI)
  fix m' k
  assume early: "now < R" and run: "rotateToNextKey m now = (m', Inr k)"
  from assms(1) have ne: "keyStatus m \<noteq> []" by (auto simp: validIndex_def)
  from run have "rotateLoop m (currentKeyIndex m) 0 now = (m', Inr k)"
    by (simp add: rotateToNextKey_def)
  from rotateLoop_selected [OF ne this]
  have "selectable (keyStatus m ! currentKeyIndex m') now" by simp
  moreover have "\<not> selectable (keyStatus m ! i) now"
    using assms(3,4) early by (simp add: selectable_def shouldResetKey_def)
  ultimately show "currentKeyIndex m' \<noteq> i" by auto
next
  fix j
  assume late: "R \<le> now"
    and j: "1 \<le> j \<and> j \<le> length (keyStatus m) \<and> scanIndex m j = i \<and>
            (\<forall>j'. 1 \<le> j' \<and> j' < j \<longrightarrow> \<not> selectable (keyStatus m ! scanIndex m j') now)"
  let ?s = "currentKeyIndex m"
  let ?n = "length (keyStatus m)"
  from assms(1) have s: "?s < ?n" by (simp add: validIndex_def)
  have sel: "selectable (keyStatus m ! i) now"
    using assms(3,4) late by (simp add: selectable_def shouldResetKey_def)
  have re: "reactivate (keyStatus m ! i) =
      (keyStatus m ! i)\<lparr>quotaExceeded := False, isActive := True, failCount := 0\<rparr>"
    using assms(3) by (simp add: reactivate_def)
  have "rotateLoop m ?s 0 now =
     (m\<lparr>currentKeyIndex := (?s + 0 + j) mod ?n,
        keyStatus := (keyStatus m)[(?s + 0 + j) mod ?n :=
                        reactivate (keyStatus m ! ((?s + 0 + j) mod ?n))]\<rparr>,
      Inr (key (keyStatus m ! ((?s + 0 + j) mod ?n))))"
  proof (rule rotateLoop_first [OF s])
    show "currentKeyIndex m = (?s + 0) mod ?n" using s by simp
    show "1 \<le> j" using j by simp
    show "0 + j \<le> ?n" using j by simp
    show "\<forall>j'. 1 \<le> j' \<and> j' < j \<longrightarrow> \<not> selectable (keyStatus m ! ((?s + 0 + j') mod ?n)) now"
      using j by (simp add: scanIndex_def)
    show "selectable (keyStatus m ! ((?s + 0 + j) mod ?n)) now"
      using j sel by (simp add: scanIndex_def)
  qed
  moreover have "(?s + 0 + j) mod ?n = i" using j by (simp add: scanIndex_def)
  ultimately have eq: "rotateToNextKey m now =
                 (m\<lparr>currentKeyIndex := i,
                    keyStatus := (keyStatus m)[i := (keyStatus m ! i)
                       \<lparr>quotaExceeded := False, isActive := True, failCount := 0\<rparr>]\<rparr>,
                  Inr (key (keyStatus m ! i)))"
    using re by (simp add: rotateToNextKey_def)
  then show "snd (rotateToNextKey m now) = Inr (key (keyStatus m ! i)) \<and>
               currentKeyIndex (fst (rotateToNextKey m now)) = i \<and>
               statusOf (keyStatus (fst (rotateToNextKey m now)) ! i) = Active \<and>
               failCount (keyStatus (fst (rotateToNextKey m now)) ! i) = 0 \<and>
               key (keyStatus (fst (rotateToNextKey m now)) ! i) = key (keyStatus m ! i) \<and>
               length (keyStatus (fst (rotateToNextKey m now))) = length (keyStatus m) \<and>
               (\<forall>i' < length (keyStatus m). i' \<noteq> i \<longrightarrow>
                  keyStatus (fst (rotateToNextKey m now)) ! i' = keyStatus m ! i')"
    using assms(2) by (simp add: statusOf_def)
qed

text \<open>
  An instance: two keys, the first reported exhausted at the epoch. One millisecond before
  the reset time a rotation from the second key comes back to the second key; at the reset
  time it reactivates and selects the first.
\<close>

theorem rotate_quota_exceeded_witness:
  "validIndex (exhaustedOf [''K1'', ''K2'']) \<and>
   quotaExceeded (keyStatus (exhaustedOf [''K1'', ''K2'']) ! 0) \<and>
   resetTime (keyStatus (exhaustedOf [''K1'', ''K2'']) ! 0) = Some 28800000 \<and>
   snd (rotateToNextKey (exhaustedOf [''K1'', ''K2'']) 28799999) = Inr ''K2'' \<and>
   currentKeyIndex (fst (rotateToNextKey (exhaustedOf [''K1'', ''K2'']) 28799999)) \<noteq> 0 \<and>
   snd (rotateToNextKey (exhaustedOf [''K1'', ''K2'']) 28800000) = Inr ''K1'' \<and>
   statusOf (keyStatus (fst (rotateToNextKey (exhaustedOf [''K1'', ''K2'']) 28800000)) ! 0) = Active"
proof -
  let ?m = "exhaustedOf [''K1'', ''K2'']"
  have v: "validIndex ?m" by (simp add: exhaustedOf_2 validIndex_def)
  have i: "0 < length (keyStatus ?m)" by (simp add: exhaustedOf_2)
  have q: "quotaExceeded (keyStatus ?m ! 0)" by (simp add: exhaustedOf_2)
  have r: "resetTime (keyStatus ?m ! 0) = Some 28800000" by (simp add: exhaustedOf_2)
  have kk: "key (keyStatus ?m ! 0) = ''K1''" by (simp add: exhaustedOf_2)
  have early: "\<forall>m' k. rotateToNextKey ?m 28799999 = (m', Inr k) \<longrightarrow> currentKeyIndex m' \<noteq> 0"
    using rotate_quota_exceeded [OF v i q r, of 28799999] by simp
  have scan: "1 \<le> (1::nat) \<and> 1 \<le> length (keyStatus ?m) \<and> scanIndex ?m 1 = 0 \<and>
     (\<forall>j'. 1 \<le> j' \<and> j' < 1 \<longrightarrow> \<not> selectable (keyStatus ?m ! scanIndex ?m j') 28800000)"
    by (simp add: exhaustedOf_2 scanIndex_def)
  have late: "snd (rotateToNextKey ?m 28800000) = Inr ''K1'' \<and>
      statusOf (keyStatus (fst (rotateToNextKey ?m 28800000)) ! 0) = Active"
    using rotate_quota_exceeded [OF v i q r, where now = 28800000, THEN conjunct2,
        rule_format, where j = 1] scan i kk
    by (simp add: statusOf_def)
  have k2: "snd (rotateToNextKey ?m 28799999) = Inr ''K2''"
    by (simp add: exhaustedOf_2 rotateToNextKey_def rotateLoop.simps
      shouldResetKey_def initialStatus_def Let_def)
  have "rotateToNextKey ?m 28799999 = (fst (rotateToNextKey ?m 28799999), Inr ''K2'')"
    using k2 by (simp add: prod_eq_iff)
  with early have e: "currentKeyIndex (fst (rotateToNextKey ?m 28799999)) \<noteq> 0" by blast
  from v q r e late k2 show ?thesis by simp
qed

section \<open>Claim C3: round robin\<close>

lemma reportAll_round_robin:
  "length (keyStatus m) = n \<Longrightarrow> currentKeyIndex m = k \<Longrightarrow> k + length calls = n \<Longrightarrow>
   (\<forall>i. k \<le> i \<and> i < n \<longrightarrow> statusOf (keyStatus m ! i) = Active) \<Longrightarrow>
   map fst (reportAll z m calls) = [k..<n] \<and>
   (\<forall>j. j + 1 < length calls \<longrightarrow>
      snd (reportAll z m calls ! j) = Inr (key (keyStatus m ! (k + j + 1))))"
proof (induction calls arbitrary: m k)
  case Nil
  then show ?case by simp
next
  case (Cons c calls)
  obtain err now where c: "c = (err, now)" by (cases c)
  from Cons.prems have k: "k < n" by simp
  let ?st = "(keyStatus m ! k)\<lparr>quotaExceeded := True, isActive := False,
                 lastError := Some err, resetTime := Some (calculateResetTime z now)\<rparr>"
  let ?m1 = "m\<lparr>keyStatus := (keyStatus m)[k := ?st]\<rparr>"
  have mark: "markCurrentKeyAsExhausted z m err now = rotateLoop ?m1 k 0 now"
    using Cons.prems k by (simp add: markCurrentKeyAsExhausted_def Let_def rotateToNextKey_def)
  show ?case
  proof (cases "calls = []")
    case True
    with Cons.prems have "Suc k = n" by simp
    with True c Cons.prems(2) show ?thesis by (simp add: upt_conv_Cons)
  next
    case False
    with Cons.prems have k1: "k + 1 < n" by (cases calls) auto
    have ne: "keyStatus ?m1 \<noteq> []"
    proof
      assume "keyStatus ?m1 = []"
      then have "length (keyStatus ?m1) = 0" by (simp only: list.size)
      with k Cons.prems(1) show False by simp
    qed
    have nx: "nextIndex ?m1 = k + 1"
      using k1 Cons.prems(1,2) by (simp add: nextIndex_def)
    have same: "keyStatus ?m1 ! (k + 1) = keyStatus m ! (k + 1)" by simp
    have act: "isActive (keyStatus m ! (k + 1)) \<and> \<not> quotaExceeded (keyStatus m ! (k + 1))"
      using Cons.prems(4) k1 by (simp add: statusOf_Active)
    then have sel: "selectable (keyStatus ?m1 ! nextIndex ?m1) now"
      by (simp only: nx same) (simp add: selectable_def)
    let ?m2 = "?m1\<lparr>currentKeyIndex := k + 1\<rparr>"
    have re: "reactivate (keyStatus ?m1 ! nextIndex ?m1) = keyStatus ?m1 ! nextIndex ?m1"
      using act by (simp only: nx same) (simp add: reactivate_active)
    have "rotateLoop ?m1 k 0 now =
        (?m1\<lparr>currentKeyIndex := nextIndex ?m1,
             keyStatus := (keyStatus ?m1)[nextIndex ?m1 :=
                reactivate (keyStatus ?m1 ! nextIndex ?m1)]\<rparr>,
         Inr (key (keyStatus ?m1 ! nextIndex ?m1)))"
      by (rule rotateLoop_select [OF ne sel])
    then have "rotateLoop ?m1 k 0 now =
        (?m1\<lparr>currentKeyIndex := nextIndex ?m1, keyStatus := keyStatus ?m1\<rparr>,
         Inr (key (keyStatus ?m1 ! nextIndex ?m1)))"
      by (simp only: re list_update_id)
    then have rot: "rotateLoop ?m1 k 0 now = (?m2, Inr (key (keyStatus m ! (k + 1))))"
      by (simp only: nx same) simp
    have IH: "map fst (reportAll z ?m2 calls) = [k + 1..<n] \<and>
       (\<forall>j. j + 1 < length calls \<longrightarrow>
          snd (reportAll z ?m2 calls ! j) = Inr (key (keyStatus ?m2 ! (k + 1 + j + 1))))"
    proof (rule Cons.IH)
      show "length (keyStatus ?m2) = n" using Cons.prems(1) by simp
      show "currentKeyIndex ?m2 = k + 1" by simp
      show "k + 1 + length calls = n" using Cons.prems(3) by simp
      show "\<forall>i. k + 1 \<le> i \<and> i < n \<longrightarrow> statusOf (keyStatus ?m2 ! i) = Active"
        using Cons.prems(4) by simp
    qed
    have fst_eq: "map fst (reportAll z m (c # calls)) = [k..<n]"
      using IH k Cons.prems(2) by (simp add: c mark rot upt_conv_Cons)
    have snd_eq: "snd (reportAll z m (c # calls) ! j) = Inr (key (keyStatus m ! (k + j + 1)))"
      if "j + 1 < length (c # calls)" for j
    proof (cases j)
      case 0
      then show ?thesis by (simp add: c mark rot)
    next
      case (Suc j')
      with that have "j' + 1 < length calls" by simp
      with IH have "snd (reportAll z ?m2 calls ! j') = Inr (key (keyStatus ?m2 ! (k + 1 + j' + 1)))"
        by blast
      then show ?thesis by (simp add: Suc c mark rot)
    qed
    from fst_eq snd_eq show ?thesis by blast
  qed
qed

text \<open>
  Claim C3. Start from a pool of \<open>N\<close> credentials, all active, with the current index at
  position 0, and report quota exhaustion \<open>N\<close> times in a row (at any instants, with any
  messages). The credential that is current when the \<open>j\<close>-th call is made is the one at
  index \<open>j\<close>: the calls visit every credential exactly once, in pool order, and none twice.
  Every call but the last returns the key of the next credential.
\<close>

theorem exhausted_round_robin:
  assumes "currentKeyIndex m = 0"
    and "\<forall>i < length (keyStatus m). statusOf (keyStatus m ! i) = Active"
    and "length calls = length (keyStatus m)"
  shows "map fst (reportAll z m calls) = [0..<length (keyStatus m)] \<and>
         distinct (map fst (reportAll z m calls)) \<and>
         set (map fst (reportAll z m calls)) = {0..<length (keyStatus m)} \<and>
         (\<forall>j. j + 1 < length calls \<longrightarrow>
            snd (reportAll z m calls ! j) = Inr (key (keyStatus m ! (j + 1))))"
proof -
  have "map fst (reportAll z m calls) = [0..<length (keyStatus m)] \<and>
   (\<forall>j. j + 1 < length calls \<longrightarrow>
      snd (reportAll z m calls ! j) = Inr (key (keyStatus m ! (0 + j + 1))))"
    by (rule reportAll_round_robin) (use assms in simp_all)
  then show ?thesis by simp
qed

text \<open>An instance with three keys; the third call finds no credential left.\<close>

theorem exhausted_round_robin_witness:
  "currentKeyIndex (poolOf [''K1'', ''K2'', ''K3'']) = 0 \<and>
   map statusOf (keyStatus (poolOf [''K1'', ''K2'', ''K3''])) = [Active, Active, Active] \<and>
   map fst (reportAll utc (poolOf [''K1'', ''K2'', ''K3''])
              [(''quotaExceeded'', 0), (''quotaExceeded'', 1000), (''quotaExceeded'', 2000)])
     = [0, 1, 2] \<and>
   map snd (reportAll utc (poolOf [''K1'', ''K2'', ''K3''])
              [(''quotaExceeded'', 0), (''quotaExceeded'', 1000), (''quotaExceeded'', 2000)])
     = [Inr ''K2'', Inr ''K3'', Inl AllKeysExhausted]"
proof -
  let ?m = "poolOf [''K1'', ''K2'', ''K3'']"
  let ?calls = "[(''quotaExceeded'', 0), (''quotaExceeded'', 1000), (''quotaExceeded'', 2000)]
                  :: (string \<times> instant) list"
  have c: "currentKeyIndex ?m = 0" by (simp add: poolOf_def)
  have a: "\<forall>i < length (keyStatus ?m). statusOf (keyStatus ?m ! i) = Active"
    by (auto simp: poolOf_def initialStatus_def statusOf_def nth_Cons' less_Suc_eq)
  have l: "length ?calls = length (keyStatus ?m)" by (simp add: poolOf_def)
  have "map fst (reportAll utc ?m ?calls) = [0..<length (keyStatus ?m)]"
    using exhausted_round_robin [OF c a l, of utc] by simp
  then have f: "map fst (reportAll utc ?m ?calls) = [0, 1, 2]"
    by (simp add: poolOf_def upt_conv_Cons)
  have s: "map snd (reportAll utc ?m ?calls) = [Inr ''K2'', Inr ''K3'', Inl AllKeysExhausted]"
    by (simp add: eval_defs)
  have st: "map statusOf (keyStatus ?m) = [Active, Active, Active]"
    by (simp add: poolOf_def initialStatus_def statusOf_def)
  from c st f s show ?thesis by simp
qed

section \<open>Claim C4: quota errors\<close>

lemma take_length_eq_iff: "take (length t) xs = t \<longleftrightarrow> (\<exists>suf. xs = t @ suf)"
proof
  assume "take (length t) xs = t"
  then have "xs = t @ drop (length t) xs" by (metis append_take_drop_id)
  then show "\<exists>suf. xs = t @ suf" ..
next
  assume "\<exists>suf. xs = t @ suf"
  then show "take (length t) xs = t" by auto
qed

lemma includesStr_iff: "includesStr s t \<longleftrightarrow> (\<exists>pre suf. s = pre @ t @ suf)"
proof (induction s)
  case Nil
  then show ?case by auto
next
  case (Cons c cs)
  have "(\<exists>pre suf. c # cs = pre @ t @ suf) \<longleftrightarrow>
        (\<exists>suf. c # cs = t @ suf) \<or> (\<exists>pre suf. cs = pre @ t @ suf)"
  proof
    assume "\<exists>pre suf. c # cs = pre @ t @ suf"
    then obtain pre suf where eq: "c # cs = pre @ t @ suf" by blast
    show "(\<exists>suf. c # cs = t @ suf) \<or> (\<exists>pre suf. cs = pre @ t @ suf)"
    proof (cases pre)
      case Nil
      with eq show ?thesis by auto
    next
      case (Cons p ps)
      with eq have "cs = ps @ t @ suf" by simp
      then show ?thesis by blast
    qed
  next
    assume "(\<exists>suf. c # cs = t @ suf) \<or> (\<exists>pre suf. cs = pre @ t @ suf)"
    then show "\<exists>pre suf. c # cs = pre @ t @ suf"
    proof
      assume "\<exists>suf. c # cs = t @ suf"
      then obtain suf where "c # cs = [] @ t @ suf" by auto
      then show ?thesis by blast
    next
      assume "\<exists>pre suf. cs = pre @ t @ suf"
      then obtain pre suf where "cs = pre @ t @ suf" by blast
      then have "c # cs = (c # pre) @ t @ suf" by simp
      then show ?thesis by blast
    qed
  qed
  with Cons.IH show ?case by (simp only: includesStr.simps take_length_eq_iff)
qed

lemma includesStr_toLowerCase:
  "includesStr (toLowerCase s) tok \<longleftrightarrow> containsIgnoringCase s tok"
proof
  assume "includesStr (toLowerCase s) tok"
  then obtain pre suf where "map lowerChar s = pre @ (tok @ suf)"
    by (auto simp: includesStr_iff toLowerCase_def)
  then have "\<exists>a r. s = a @ r \<and> pre = map lowerChar a \<and> tok @ suf = map lowerChar r"
    by (simp only: map_eq_append_conv)
  then obtain a r where a: "s = a @ r" "map lowerChar r = tok @ suf" by metis
  from a(2) have "\<exists>b c. r = b @ c \<and> tok = map lowerChar b \<and> suf = map lowerChar c"
    by (simp only: map_eq_append_conv)
  then obtain b c where "r = b @ c" "map lowerChar b = tok" by metis
  with a(1) have "s = a @ b @ c \<and> toLowerCase b = tok" by (simp add: toLowerCase_def)
  then show "containsIgnoringCase s tok"
    unfolding containsIgnoringCase_def by blast
next
  assume "containsIgnoringCase s tok"
  then obtain pre mid suf where "s = pre @ mid @ suf" "toLowerCase mid = tok"
    by (auto simp: containsIgnoringCase_def)
  then have "toLowerCase s = toLowerCase pre @ tok @ toLowerCase suf"
    by (auto simp: toLowerCase_def)
  then show "includesStr (toLowerCase s) tok" by (auto simp: includesStr_iff)
qed

lemma plain403_not_quota: "responseStatus plain403 = Some 403 \<and> \<not> isQuotaError plain403"
  by (simp add: plain403_def isQuotaError_def errorMessage_def toLowerCase_def lowerChar_def)

text \<open>
  Claim C4 as stated fails on the status code: \<^verbatim>\<open>isQuotaError\<close> does not read the status of
  the response. A response with status 403 whose body is not the service's error object,
  and whose message names no token, is not a quota error.
\<close>

theorem status403_not_quota_counterexample:
  "responseStatus plain403 = Some 403 \<and> \<not> isQuotaError plain403"
  by (rule plain403_not_quota)

text \<open>
  Claim C4, amended. An error is a quota error exactly when the code of the error object in
  the response body is 403, or the error message contains one of the tokens quota, exceeded
  and limit, case-insensitively. For every quota error, also one that matches the patterns
  of an invalid key, \<^verbatim>\<open>handleApiError\<close> takes the quota path: it marks the current key as
  exhausted and rotates.
\<close>

theorem quota_classification:
  "(isQuotaError e \<longleftrightarrow>
      payloadCode e = Some 403 \<or>
      containsIgnoringCase (errorMessage e) ''quota'' \<or>
      containsIgnoringCase (errorMessage e) ''exceeded'' \<or>
      containsIgnoringCase (errorMessage e) ''limit'') \<and>
   (isQuotaError e \<longrightarrow>
      handleApiError z m e now = markCurrentKeyAsExhausted z m (message e) now)"
  by (simp add: isQuotaError_def includesStr_toLowerCase handleApiError_def)

text \<open>
  Instances: the service's quota error, and an error whose message contains both LIMIT and
  Invalid.
\<close>

theorem quota_classification_witness:
  "payloadCode quota403 = Some 403 \<and> isQuotaError quota403 \<and>
   containsIgnoringCase (errorMessage limitInvalid400) ''limit'' \<and>
   isQuotaError limitInvalid400 \<and> isInvalidKeyError limitInvalid400 \<and>
   handleApiError utc (poolOf [''K1'', ''K2'']) limitInvalid400 0 =
     markCurrentKeyAsExhausted utc (poolOf [''K1'', ''K2'']) (message limitInvalid400) 0 \<and>
   snd (handleApiError utc (poolOf [''K1'', ''K2'']) limitInvalid400 0) = Inr ''K2''"
proof -
  have p: "payloadCode quota403 = Some 403" by (simp add: quota403_def)
  have q: "isQuotaError quota403"
    using quota_classification [of quota403] p by simp
  have c: "containsIgnoringCase (errorMessage limitInvalid400) ''limit''"
    unfolding containsIgnoringCase_def
    apply (rule exI [of _ "''Invalid request: rate ''"])
    apply (rule exI [of _ "''LIMIT''"])
    apply (rule exI [of _ "'' reached''"])
    apply (simp add: limitInvalid400_def errorMessage_def toLowerCase_def lowerChar_def)
    done
  have l: "isQuotaError limitInvalid400"
    using quota_classification [of limitInvalid400] c by simp
  have i: "isInvalidKeyError limitInvalid400"
    by (simp add: limitInvalid400_def isInvalidKeyError_def errorMessage_def toLowerCase_def
        lowerChar_def)
  have h: "handleApiError utc (poolOf [''K1'', ''K2'']) limitInvalid400 0 =
     markCurrentKeyAsExhausted utc (poolOf [''K1'', ''K2'']) (message limitInvalid400) 0"
    using quota_classification [of limitInvalid400 utc "poolOf [''K1'', ''K2'']" 0] l by simp
  have k: "snd (markCurrentKeyAsExhausted utc (poolOf [''K1'', ''K2''])
             (message limitInvalid400) 0) = Inr ''K2''"
    by (simp add: eval_defs)
  from p q c l i h k show ?thesis by simp
qed

section \<open>Claim C5: errors that are not retried\<close>

lemma notFound404_fatal:
  "classify (\<lambda>e. responseStatus e = None) notFound404 = Fatal"
  by (simp add: classify_def notFound404_def isQuotaError_def isInvalidKeyError_def
      errorMessage_def toLowerCase_def lowerChar_def retryCondition_def)

text \<open>
  Claim C5. Let the first attempt fail with an error classified Fatal: neither a quota
  error, nor an invalid-key error, nor one the HTTP client retries (whatever the library
  predicate of the retry condition is). Then the request function makes exactly one remote
  call, leaves the current index and the state of every credential as they were (only the
  time of last use of the current credential is set), and throws that error at once.
\<close>

theorem fatal_single_attempt:
  assumes "validIndex m" and "0 < maxRetries"
    and "remote 0 (key (keyStatus m ! currentKeyIndex m)) = Inl e"
    and "classify isNetworkOrIdempotentRequestError e = Fatal"
  shows "makeApiRequestWithKeyRotation z remote clock maxRetries m =
           \<lparr>managerAfter = fst (getCurrentKey m (clock 0)),
            keysSent = [key (keyStatus m ! currentKeyIndex m)],
            result = Inl (Upstream e)\<rparr> \<and>
         currentKeyIndex (fst (getCurrentKey m (clock 0))) = currentKeyIndex m \<and>
         map statusOf (keyStatus (fst (getCurrentKey m (clock 0)))) = map statusOf (keyStatus m) \<and>
         keyStatus (fst (getCurrentKey m (clock 0))) =
           (keyStatus m)[currentKeyIndex m :=
              (keyStatus m ! currentKeyIndex m)\<lparr>lastUsed := Some (clock 0)\<rparr>]"
proof -
  from assms(4) have s403: "responseStatus e \<noteq> Some 403"
    by (auto simp: classify_def split: if_splits)
  from assms(4) have "\<not> retryCondition isNetworkOrIdempotentRequestError e"
    by (auto simp: classify_def split: if_splits)
  then have s429: "responseStatus e \<noteq> Some 429" by (simp add: retryCondition_def)
  have st: "map statusOf ((keyStatus m)[currentKeyIndex m :=
          (keyStatus m ! currentKeyIndex m)\<lparr>lastUsed := Some (clock 0)\<rparr>]) = map statusOf (keyStatus m)"
    using assms(1)
    by (simp add: map_update statusOf_def validIndex_def list_update_same_conv)
  show ?thesis
    using assms(1,2,3) s403 s429 st
    by (simp add: makeApiRequestWithKeyRotation_def requestLoop.simps [of _ _ _ _ 0]
        getCurrentKey_ok)
qed

text \<open>
  An instance: a 404 with three attempts allowed, the library predicate accepting the
  errors that have no response.
\<close>

theorem fatal_single_attempt_witness:
  "validIndex (poolOf [''K1'', ''K2'']) \<and>
   classify (\<lambda>e. responseStatus e = None) notFound404 = Fatal \<and>
   keysSent (makeApiRequestWithKeyRotation utc (\<lambda>attempt k. Inl notFound404 :: api_error + unit)
      (\<lambda>attempt. 1000 * int attempt) 3 (poolOf [''K1'', ''K2''])) = [''K1''] \<and>
   result (makeApiRequestWithKeyRotation utc (\<lambda>attempt k. Inl notFound404 :: api_error + unit)
      (\<lambda>attempt. 1000 * int attempt) 3 (poolOf [''K1'', ''K2''])) = Inl (Upstream notFound404) \<and>
   currentKeyIndex (managerAfter (makeApiRequestWithKeyRotation utc
      (\<lambda>attempt k. Inl notFound404 :: api_error + unit)
      (\<lambda>attempt. 1000 * int attempt) 3 (poolOf [''K1'', ''K2'']))) = 0 \<and>
   map statusOf (keyStatus (managerAfter (makeApiRequestWithKeyRotation utc
      (\<lambda>attempt k. Inl notFound404 :: api_error + unit)
      (\<lambda>attempt. 1000 * int attempt) 3 (poolOf [''K1'', ''K2''])))) = [Active, Active]"
proof -
  define m where "m = poolOf [''K1'', ''K2'']"
  define remote where "remote = (\<lambda>(attempt::nat) (k::string). Inl notFound404 :: api_error + unit)"
  have v: "validIndex m" by (simp add: m_def poolOf_def validIndex_def)
  have r: "remote 0 (key (keyStatus m ! currentKeyIndex m)) = Inl notFound404"
    by (simp add: remote_def)
  have k: "key (keyStatus m ! currentKeyIndex m) = ''K1''"
    by (simp add: m_def poolOf_def initialStatus_def)
  have c: "currentKeyIndex m = 0" by (simp add: m_def poolOf_def)
  have st: "map statusOf (keyStatus m) = [Active, Active]"
    by (simp add: m_def poolOf_def initialStatus_def statusOf_def)
  have pos: "0 < (3::nat)" by simp
  note t = fatal_single_attempt [where remote = remote and m = m and e = notFound404
      and maxRetries = 3 and z = utc and clock = "\<lambda>attempt. 1000 * int attempt"
      and isNetworkOrIdempotentRequestError = "\<lambda>e. responseStatus e = None",
      OF v pos r notFound404_fatal]
  from t have run: "makeApiRequestWithKeyRotation utc remote (\<lambda>attempt. 1000 * int attempt) 3 m =
           \<lparr>managerAfter = fst (getCurrentKey m (1000 * int 0)),
            keysSent = [key (keyStatus m ! currentKeyIndex m)],
            result = Inl (Upstream notFound404)\<rparr>"
    by (rule conjunct1)
  from t have ci: "currentKeyIndex (fst (getCurrentKey m (1000 * int 0))) = currentKeyIndex m"
    by (rule conjunct2 [THEN conjunct1])
  from t have ms: "map statusOf (keyStatus (fst (getCurrentKey m (1000 * int 0)))) =
      map statusOf (keyStatus m)"
    by (rule conjunct2 [THEN conjunct2, THEN conjunct1])
  have k0: "key (keyStatus m ! 0) = ''K1''" using k c by simp
  have ci0: "currentKeyIndex (fst (getCurrentKey m 0)) = 0" using ci c by simp
  have ms0: "map statusOf (keyStatus (fst (getCurrentKey m 0))) = [Active, Active]"
    using ms st by simp
  from v notFound404_fatal show ?thesis
    unfolding m_def [symmetric] remote_def [symmetric]
    by (simp add: run c k0 ci0 ms0)
qed

section \<open>Claim C6: the cache in front of a fetch function\<close>










section \<open>Claim C7: three failures in a row\<close>




section \<open>Claim C8: the next reset time\<close>

text \<open>
  On a host whose local time has a constant offset from UTC, the reset time is the next
  08:00:00.000 UTC strictly after \<open>now\<close>, at most 24 hours away.
\<close>

lemma reset_fixed_zone:
  "now < calculateResetTime (fixedZone c) now \<and>
   calculateResetTime (fixedZone c) now \<le> now + msPerDay \<and>
   utcTimeOfDay (calculateResetTime (fixedZone c) now) = 8 * msPerHour"
proof -
  define q where "q = now div 86400000 * 86400000"
  have q1: "q \<le> now" and q2: "now < q + 86400000"
    unfolding q_def by (simp_all add: minus_mod_eq_div_mult [symmetric] pos_mod_bound)
  have m1: "(q + 28800000) mod 86400000 = 28800000"
    and m2: "(q + 115200000) mod 86400000 = 28800000"
    unfolding q_def by simp_all
  have r: "setUTCHours8 now = q + 28800000"
    by (simp add: setUTCHours8_def msPerDay_def msPerHour_def q_def)
  show ?thesis
  proof (cases "now \<ge> q + 28800000")
    case True
    then have "calculateResetTime (fixedZone c) now = q + 115200000"
      by (simp add: calculateResetTime_def r setDateNext_def fixedZone_def msPerDay_def Let_def)
    with q1 q2 m2 True show ?thesis
      by (simp add: utcTimeOfDay_def msPerDay_def msPerHour_def)
  next
    case False
    then have "calculateResetTime (fixedZone c) now = q + 28800000"
      by (simp add: calculateResetTime_def r Let_def)
    with q1 q2 m1 False show ?thesis
      by (simp add: utcTimeOfDay_def msPerDay_def msPerHour_def)
  qed
qed

text \<open>
  Claim C8 says that for every instant the reset time is strictly later, has the UTC time
  of day 08:00:00.000, and is the next such instant. The source sets the hour in UTC but
  advances the day in local time, so the claim fails on a host whose offset changes: on
  Pacific time, at 2026-03-08T12:00:00Z (1772971200000), the reset time computed is
  2026-03-09T07:00:00Z (1773039600000), whose UTC time of day is 07:00.
\<close>

theorem reset_time_pacific:
  "calculateResetTime pacific2026 1772971200000 = 1773039600000 \<and>
   utcTimeOfDay (calculateResetTime pacific2026 1772971200000) = 7 * msPerHour \<and>
   utcTimeOfDay (calculateResetTime pacific2026 1772971200000) \<noteq> 8 * msPerHour"
  by (simp add: calculateResetTime_def setUTCHours8_def setDateNext_def pacific2026_def
      utcTimeOfDay_def msPerDay_def msPerHour_def Let_def)

section \<open>Claim C9: the marking stands when the rotation fails\<close>

text \<open>
  Claim C9. When \<^verbatim>\<open>markCurrentKeyAsExhausted\<close> throws, the error is the exhaustion error
  and the marking made before the rotation is kept: the state afterwards is the state
  before with the current credential over quota, inactive, carrying the error and its
  reset time, and nothing else changed. The current index is the one before the call, a
  valid index, and the credential it addresses is not active.
\<close>

theorem exhausted_marking_stands:
  assumes "validIndex m"
    and "markCurrentKeyAsExhausted z m err now = (m', Inl e)"
  shows "e = AllKeysExhausted \<and>
         currentKeyIndex m' = currentKeyIndex m \<and> validIndex m' \<and>
         keyStatus m' = (keyStatus m)[currentKeyIndex m :=
            (keyStatus m ! currentKeyIndex m)\<lparr>quotaExceeded := True, isActive := False,
               lastError := Some err, resetTime := Some (calculateResetTime z now)\<rparr>] \<and>
         statusOf (keyStatus m' ! currentKeyIndex m') = QuotaExceeded \<and>
         \<not> isActive (keyStatus m' ! currentKeyIndex m') \<and>
         lastError (keyStatus m' ! currentKeyIndex m') = Some err \<and>
         resetTime (keyStatus m' ! currentKeyIndex m') = Some (calculateResetTime z now)"
proof -
  let ?i = "currentKeyIndex m"
  let ?m1 = "m\<lparr>keyStatus := (keyStatus m)[?i :=
            (keyStatus m ! ?i)\<lparr>quotaExceeded := True, isActive := False,
               lastError := Some err, resetTime := Some (calculateResetTime z now)\<rparr>]\<rparr>"
  from assms(1) have v: "?i < length (keyStatus m)" by (simp add: validIndex_def)
  with assms(2) have run: "rotateLoop ?m1 ?i 0 now = (m', Inl e)"
    by (simp add: markCurrentKeyAsExhausted_def Let_def rotateToNextKey_def)
  have ne: "keyStatus ?m1 \<noteq> []"
  proof
    assume "keyStatus ?m1 = []"
    then have "length (keyStatus ?m1) = 0" by (simp only: list.size)
    with v show False by simp
  qed
  have ks: "keyStatus m' = keyStatus ?m1" by (rule rotateLoop_fail_status [OF ne run])
  have "currentKeyIndex m' = ?i \<and> e = AllKeysExhausted"
    by (rule rotateLoop_fail_index [OF run]) (use v in auto)
  with ks v show ?thesis by (simp add: validIndex_def statusOf_def)
qed

text \<open>An instance: the only key of a pool is reported exhausted.\<close>

theorem exhausted_marking_stands_witness:
  "validIndex (poolOf [''K1'']) \<and>
   snd (markCurrentKeyAsExhausted utc (poolOf [''K1'']) ''quotaExceeded'' 0) = Inl AllKeysExhausted \<and>
   currentKeyIndex (exhaustedOf [''K1'']) = 0 \<and> validIndex (exhaustedOf [''K1'']) \<and>
   statusOf (keyStatus (exhaustedOf [''K1'']) ! 0) = QuotaExceeded \<and>
   lastError (keyStatus (exhaustedOf [''K1'']) ! 0) = Some ''quotaExceeded'' \<and>
   resetTime (keyStatus (exhaustedOf [''K1'']) ! 0) = Some 28800000"
proof -
  let ?m = "poolOf [''K1'']"
  have v: "validIndex ?m" by (simp add: poolOf_def validIndex_def)
  have c: "currentKeyIndex ?m = 0" by (simp add: poolOf_def)
  have run: "markCurrentKeyAsExhausted utc ?m ''quotaExceeded'' 0 =
               (exhaustedOf [''K1''], Inl AllKeysExhausted)"
    using single_exhausted by (simp add: exhaustedOf_def)
  have t: "calculateResetTime utc 0 = 28800000"
    by (simp add: calculateResetTime_def setUTCHours8_def utc_def fixedZone_def msPerDay_def
        msPerHour_def Let_def)
  from exhausted_marking_stands [OF v run] v run c t show ?thesis
    by (simp add: poolOf_def initialStatus_def statusOf_def)
qed

section \<open>Claim C10: the current key\<close>

text \<open>
  Claim C10. In every reachable state \<^verbatim>\<open>getCurrentKey\<close> returns the key at the current
  index, whatever the state of that credential, and changes nothing but the field
  \<^verbatim>\<open>lastUsed\<close> of that credential: the current index, the other credentials and the other
  fields are as before.
\<close>

theorem getCurrentKey_frame:
  assumes "reachable z m"
  shows "snd (getCurrentKey m now) = Inr (key (keyStatus m ! currentKeyIndex m)) \<and>
         currentKeyIndex (fst (getCurrentKey m now)) = currentKeyIndex m \<and>
         length (keyStatus (fst (getCurrentKey m now))) = length (keyStatus m) \<and>
         (\<forall>i < length (keyStatus m). i \<noteq> currentKeyIndex m \<longrightarrow>
            keyStatus (fst (getCurrentKey m now)) ! i = keyStatus m ! i) \<and>
         keyStatus (fst (getCurrentKey m now)) ! currentKeyIndex m =
           (keyStatus m ! currentKeyIndex m)\<lparr>lastUsed := Some now\<rparr>"
proof -
  from assms have "currentKeyIndex m < length (keyStatus m)"
    using reachable_valid by (simp add: validIndex_def)
  then show ?thesis by (simp add: getCurrentKey_def Let_def)
qed

text \<open>An instance: the current credential is over quota, and its key is returned.\<close>

theorem getCurrentKey_frame_witness:
  "reachable utc (exhaustedOf [''K1'']) \<and>
   statusOf (keyStatus (exhaustedOf [''K1'']) ! currentKeyIndex (exhaustedOf [''K1''])) = QuotaExceeded \<and>
   snd (getCurrentKey (exhaustedOf [''K1'']) 5000) = Inr ''K1'' \<and>
   currentKeyIndex (fst (getCurrentKey (exhaustedOf [''K1'']) 5000)) = 0 \<and>
   keyStatus (fst (getCurrentKey (exhaustedOf [''K1'']) 5000)) ! 0 =
     (keyStatus (exhaustedOf [''K1'']) ! 0)\<lparr>lastUsed := Some 5000\<rparr>"
proof -
  have "newManager [''K1''] = Inr (poolOf [''K1''])" by (simp add: newManager_def)
  then have "reachable utc (poolOf [''K1''])" by (rule r_new)
  then have r: "reachable utc (exhaustedOf [''K1''])"
    unfolding exhaustedOf_def by (rule r_exhausted)
  have s: "statusOf (keyStatus (exhaustedOf [''K1'']) ! currentKeyIndex (exhaustedOf [''K1'']))
             = QuotaExceeded"
    "currentKeyIndex (exhaustedOf [''K1'']) = 0" "key (keyStatus (exhaustedOf [''K1'']) ! 0) = ''K1''"
    by (simp_all add: exhaustedOf_1 statusOf_def)
  from getCurrentKey_frame [OF r, of 5000] r s show ?thesis by simp
qed

end
